theory Spec2Isabelle
  imports Complex_Main "HOL-Library.AList" "HOL-Library.Sublist"
begin

section \<open>JavaScript values and the cache key\<close>

text \<open>
  The dynamic values that travel through the executor (\<open>params\<close>, \<open>data\<close>, response
  bodies). Numbers are idealised as integers; \<open>JBigInt\<close> is the one value of the
  datatype that \<open>JSON.stringify\<close> refuses.
\<close>

datatype jsvalue =
    JUndefined
  | JNull
  | JBool bool
  | JNum int
  | JStr string
  | JBigInt int
  | JArr "jsvalue list"
  | JObj "(string \<times> jsvalue) list"

text \<open>What a JavaScript \<open>if (v)\<close> tests.\<close>

primrec truthy :: "jsvalue \<Rightarrow> bool" where
  "truthy JUndefined = False"
| "truthy JNull = False"
| "truthy (JBool b) = b"
| "truthy (JNum n) = (n \<noteq> 0)"
| "truthy (JStr s) = (s \<noteq> [])"
| "truthy (JBigInt n) = (n \<noteq> 0)"
| "truthy (JArr xs) = True"
| "truthy (JObj ps) = True"

text \<open>An exception that leaves a function.\<close>

datatype exn = TypeError string

definition digit_char :: "nat \<Rightarrow> char" where
  "digit_char d = ''0123456789abcdef'' ! d"

fun show_nat :: "nat \<Rightarrow> string" where
  "show_nat n = (if n < 10 then [digit_char n] else show_nat (n div 10) @ [digit_char (n mod 10)])"

declare show_nat.simps [simp del]

definition show_int :: "int \<Rightarrow> string" where
  "show_int i = (if i < 0 then CHR ''-'' # show_nat (nat (- i)) else show_nat (nat i))"

definition quote_char :: "char \<Rightarrow> string" where
  "quote_char c =
     (let n = (of_char c :: nat) in
      if n = 34 then [CHR 0x5C, CHR 0x22]
      else if n = 92 then [CHR 0x5C, CHR 0x5C]
      else if n = 8 then [CHR 0x5C, CHR ''b'']
      else if n = 9 then [CHR 0x5C, CHR ''t'']
      else if n = 10 then [CHR 0x5C, CHR ''n'']
      else if n = 12 then [CHR 0x5C, CHR ''f'']
      else if n = 13 then [CHR 0x5C, CHR ''r'']
      else if n < 32 then [CHR 0x5C, CHR ''u'', CHR ''0'', CHR ''0'', digit_char (n div 16), digit_char (n mod 16)]
      else [c])"

definition quote :: "string \<Rightarrow> string" where
  "quote s = CHR 0x22 # concat (map quote_char s) @ [CHR 0x22]"

fun join :: "string list \<Rightarrow> string" where
  "join [] = []"
| "join [s] = s"
| "join (s # t # ss) = s @ '','' @ join (t # ss)"

text \<open>The first element that throws ends the serialisation.\<close>

fun collect :: "(exn + 'a) list \<Rightarrow> exn + 'a list" where
  "collect [] = Inr []"
| "collect (Inl e # rs) = Inl e"
| "collect (Inr x # rs) = (case collect rs of Inl e \<Rightarrow> Inl e | Inr xs \<Rightarrow> Inr (x # xs))"

definition stringify_array :: "(exn + string option) list \<Rightarrow> exn + string option" where
  "stringify_array rs =
     (case collect rs of
        Inl e \<Rightarrow> Inl e
      | Inr ss \<Rightarrow> Inr (Some (''['' @ join (map (\<lambda>r. case r of None \<Rightarrow> ''null'' | Some s \<Rightarrow> s) ss) @ '']'')))"

definition stringify_object :: "(string \<times> (exn + string option)) list \<Rightarrow> exn + string option" where
  "stringify_object rs =
     (case collect (map (\<lambda>(k, r). map_sum id (Pair k) r) rs) of
        Inl e \<Rightarrow> Inl e
      | Inr kss \<Rightarrow>
          Inr (Some (''{'' @ join (concat (map (\<lambda>(k, r). case r of None \<Rightarrow> [] | Some s \<Rightarrow> [quote k @ '':'' @ s]) kss)) @ ''}'')))"

text \<open>
  \<open>JSON.stringify\<close>: \<open>Inr None\<close> is the result \<open>undefined\<close>; a BigInt anywhere in
  the value raises a TypeError; an undefined array element is written \<open>null\<close>, an
  undefined property is left out.
\<close>

primrec stringify :: "jsvalue \<Rightarrow> exn + string option" where
  "stringify JUndefined = Inr None"
| "stringify JNull = Inr (Some ''null'')"
| "stringify (JBool b) = Inr (Some (if b then ''true'' else ''false''))"
| "stringify (JNum n) = Inr (Some (show_int n))"
| "stringify (JStr s) = Inr (Some (quote s))"
| "stringify (JBigInt n) = Inl (TypeError ''Do not know how to serialize a BigInt'')"
| "stringify (JArr xs) = stringify_array (map stringify xs)"
| "stringify (JObj ps) = stringify_object (map (map_prod id stringify) ps)"

definition b64_char :: "nat \<Rightarrow> char" where
  "b64_char n = ''ABCDEFGHIJKLMNOPQRSTUVWXYZabcdefghijklmnopqrstuvwxyz0123456789+/'' ! n"

fun base64 :: "nat list \<Rightarrow> string" where
  "base64 [] = []"
| "base64 [a] = [b64_char (a div 4), b64_char ((a mod 4) * 16), CHR ''='', CHR ''='']"
| "base64 [a, b] =
     [b64_char (a div 4), b64_char ((a mod 4) * 16 + b div 16), b64_char ((b mod 16) * 4), CHR ''='']"
| "base64 (a # b # c # rest) =
     [b64_char (a div 4), b64_char ((a mod 4) * 16 + b div 16),
      b64_char ((b mod 16) * 4 + c div 64), b64_char (c mod 64)] @ base64 rest"

definition toBase64 :: "string \<Rightarrow> string" where
  "toBase64 s = base64 (map of_char s)"

definition toLowerCase :: "string \<Rightarrow> string" where
  "toLowerCase s =
     map (\<lambda>c. let n = (of_char c :: nat) in if 65 \<le> n \<and> n \<le> 90 then char_of (n + 32) else c) s"

record AxiosRequestConfig =
  req_url :: "string option"
  req_method :: "string option"
  req_params :: jsvalue
  req_data :: jsvalue

definition opt_str :: "string option \<Rightarrow> jsvalue" where
  "opt_str v = (case v of None \<Rightarrow> JUndefined | Some s \<Rightarrow> JStr s)"

text \<open>
  \<open>generateCacheKey\<close>: \<open>Buffer.from(JSON.stringify(keyData)).toString('base64')\<close>, with
  the exception of \<open>JSON.stringify\<close> as a result of its own.
\<close>

definition generateCacheKey :: "AxiosRequestConfig \<Rightarrow> exn + string" where
  "generateCacheKey cfg =
     (case stringify (JObj [(''url'', opt_str (req_url cfg)), (''method'', opt_str (req_method cfg)),
                            (''params'', req_params cfg), (''data'', req_data cfg)]) of
        Inl e \<Rightarrow> Inl e
      | Inr None \<Rightarrow> Inl (TypeError ''The first argument must be of type string'')
      | Inr (Some s) \<Rightarrow> Inr (toBase64 s))"

section \<open>The resilient request executor\<close>

subsection \<open>Configuration, metrics and state\<close>

text \<open>
  Of each configuration, the fields that the operations below read. Counts
  (\<open>retryAttempts\<close>, \<open>maxRequests\<close>, \<open>maxSize\<close>) are natural numbers, times are
  integers in milliseconds.
\<close>

record APIConfig =
  baseURL :: string
  retryAttempts :: nat
  retryDelay :: int

record RateLimitConfig =
  windowMs :: int
  maxRequests :: nat

datatype strategy = LRU | FIFO | LFU

record CacheConfig =
  enabled :: bool
  ttl :: int
  maxSize :: nat
  strategy :: strategy

text \<open>
  The running average is a JavaScript double in the source; here it is a real number,
  so rounding is not modelled.
\<close>

record IntegrationMetrics =
  totalRequests :: nat
  successfulRequests :: nat
  failedRequests :: nat
  averageResponseTime :: real
  rateLimitHits :: nat
  cacheHits :: nat
  cacheMisses :: nat
  lastError :: "string option"
  lastErrorTime :: "int option"

record CacheItem =
  item_data :: jsvalue
  item_timestamp :: int
  hits :: nat

record AxiosResponse =
  resp_data :: jsvalue
  resp_status :: int
  resp_time :: "real option"

record AxiosError =
  err_message :: string
  err_status :: "int option"

record APIResponse =
  success :: bool
  data :: "jsvalue option"
  error :: "string option"
  statusCode :: "int option"
  responseTime :: "int option"
  cached :: "bool option"

record WebhookConfig =
  hook_url :: string
  hook_secret :: string
  hook_events :: "string list"

text \<open>
  What the executor does to the outside, in the order it does it: an HTTP attempt (the
  n-th of this executor), a suspension of \<open>delay(ms)\<close>, an emitted event, a webhook
  delivery and whether it succeeded.
\<close>

datatype event =
    Http nat
  | Delay int
  | DelayInfinity
  | Emit_api_success int "string option" "string option"
  | Emit_api_failure string "int option" "string option" "string option"
  | WebhookPost string bool

text \<open>
  The outside world: the outcome of the n-th HTTP attempt with the time it takes, and
  the outcome of a POST to a webhook URL. \<open>resp_time\<close> of a response is
  \<open>response.config.metadata?.responseTime\<close>.
\<close>

record environment =
  net :: "nat \<Rightarrow> int \<times> (AxiosError + AxiosResponse)"
  hookNet :: "string \<Rightarrow> int \<times> bool"

text \<open>
  The fields of the class, the clock that \<open>Date.now()\<close> reads, the number of HTTP
  attempts made so far and the trace of effects. The cache is a JavaScript \<open>Map\<close>:
  an association list in insertion order.
\<close>

record IntegrationLayer =
  config :: APIConfig
  rateLimitConfig :: RateLimitConfig
  cacheConfig :: CacheConfig
  metrics :: IntegrationMetrics
  cache :: "(string \<times> CacheItem) list"
  rateLimitTracker :: "string \<rightharpoonup> int list"
  webhooks :: "(string \<times> WebhookConfig) list"
  clock :: int
  netCalls :: nat
  trace :: "event list"

definition initialMetrics :: IntegrationMetrics where
  "initialMetrics =
     \<lparr>totalRequests = 0, successfulRequests = 0, failedRequests = 0, averageResponseTime = 0,
      rateLimitHits = 0, cacheHits = 0, cacheMisses = 0, lastError = None, lastErrorTime = None\<rparr>"

definition defaultRateLimitConfig :: RateLimitConfig where
  "defaultRateLimitConfig = \<lparr>windowMs = 60000, maxRequests = 100\<rparr>"

definition defaultCacheConfig :: CacheConfig where
  "defaultCacheConfig = \<lparr>enabled = True, ttl = 300000, maxSize = 1000, strategy = LRU\<rparr>"

text \<open>The constructor, at clock \<open>t\<close>.\<close>

definition newLayer :: "APIConfig \<Rightarrow> RateLimitConfig \<Rightarrow> CacheConfig \<Rightarrow> int \<Rightarrow> IntegrationLayer" where
  "newLayer c r k t =
     \<lparr>config = c, rateLimitConfig = r, cacheConfig = k, metrics = initialMetrics, cache = [],
      rateLimitTracker = Map.empty, webhooks = [], clock = t, netCalls = 0, trace = []\<rparr>"

text \<open>
  \<open>delay(ms)\<close>: the timer is taken to fire after exactly the requested time. A
  request of \<open>Infinity\<close> milliseconds is coerced by the runtime to one millisecond.
\<close>

definition delay :: "int \<Rightarrow> IntegrationLayer \<Rightarrow> IntegrationLayer" where
  "delay ms s = s\<lparr>clock := clock s + max ms 0, trace := trace s @ [Delay ms]\<rparr>"

definition delayInfinity :: "IntegrationLayer \<Rightarrow> IntegrationLayer" where
  "delayInfinity s = s\<lparr>clock := clock s + 1, trace := trace s @ [DelayInfinity]\<rparr>"

subsection \<open>Metrics\<close>

definition updateAverageResponseTime :: "real \<Rightarrow> IntegrationMetrics \<Rightarrow> IntegrationMetrics" where
  "updateAverageResponseTime t m =
     (let totalReqs = successfulRequests m + failedRequests m
      in m\<lparr>averageResponseTime := (averageResponseTime m * (real totalReqs - 1) + t) / real totalReqs\<rparr>)"

text \<open>\<open>response.config.metadata?.responseTime || 0\<close>\<close>

definition sampleOf :: "AxiosResponse \<Rightarrow> real" where
  "sampleOf r = (case resp_time r of None \<Rightarrow> 0 | Some t \<Rightarrow> t)"

definition recordSuccess :: "AxiosRequestConfig \<Rightarrow> AxiosResponse \<Rightarrow> IntegrationLayer \<Rightarrow> IntegrationLayer" where
  "recordSuccess cfg r s =
     (let m = (metrics s)\<lparr>successfulRequests := successfulRequests (metrics s) + 1\<rparr>
      in s\<lparr>metrics := updateAverageResponseTime (sampleOf r) m,
            trace := trace s @ [Emit_api_success (resp_status r) (req_url cfg) (req_method cfg)]\<rparr>)"

definition recordFailure :: "AxiosRequestConfig \<Rightarrow> AxiosError \<Rightarrow> IntegrationLayer \<Rightarrow> IntegrationLayer" where
  "recordFailure cfg e s =
     s\<lparr>metrics := (metrics s)\<lparr>failedRequests := failedRequests (metrics s) + 1,
                               lastError := Some (err_message e),
                               lastErrorTime := Some (clock s)\<rparr>,
       trace := trace s @ [Emit_api_failure (err_message e) (err_status e) (req_url cfg) (req_method cfg)]\<rparr>"

subsection \<open>HTTP attempts and retry\<close>

definition bumpTotal :: "IntegrationLayer \<Rightarrow> IntegrationLayer" where
  "bumpTotal s = s\<lparr>metrics := (metrics s)\<lparr>totalRequests := totalRequests (metrics s) + 1\<rparr>\<rparr>"

text \<open>
  \<open>this.axiosInstance.request(config)\<close>: one HTTP attempt, followed by the response
  interceptor (\<open>recordSuccess\<close> or \<open>recordFailure\<close>). \<open>Inl\<close> is the rejected promise.
\<close>

definition axiosRequest ::
  "environment \<Rightarrow> AxiosRequestConfig \<Rightarrow> IntegrationLayer \<Rightarrow> (AxiosError + AxiosResponse) \<times> IntegrationLayer" where
  "axiosRequest env cfg s =
     (let (took, outcome) = net env (netCalls s);
          s1 = s\<lparr>clock := clock s + took, netCalls := Suc (netCalls s), trace := trace s @ [Http (netCalls s)]\<rparr>
      in case outcome of
           Inr r \<Rightarrow> (Inr r, recordSuccess cfg r s1)
         | Inl e \<Rightarrow> (Inl e, recordFailure cfg e s1))"

text \<open>
  The loop of \<open>makeRequestWithRetry\<close> from \<open>attempt\<close> on. What it throws is
  \<open>lastError\<close>, which is \<open>undefined\<close> (\<open>None\<close>) until an attempt has failed.
\<close>

function retryLoop ::
  "environment \<Rightarrow> AxiosRequestConfig \<Rightarrow> nat \<Rightarrow> AxiosError option \<Rightarrow> IntegrationLayer
     \<Rightarrow> (AxiosError option + AxiosResponse) \<times> IntegrationLayer" where
  "retryLoop env cfg attempt lastErr s =
     (if attempt \<le> retryAttempts (config s) then
        (case axiosRequest env cfg (bumpTotal s) of
           (Inr r, s') \<Rightarrow> (Inr r, s')
         | (Inl e, s') \<Rightarrow>
             retryLoop env cfg (Suc attempt) (Some e)
               (if attempt < retryAttempts (config s') then delay (retryDelay (config s') * 2 ^ attempt) s' else s'))
      else (Inl lastErr, s))"
  by pat_completeness auto
termination
proof (relation "measure (\<lambda>(env, cfg, attempt, lastErr, s). Suc (retryAttempts (config s)) - attempt)")
  show "wf (measure (\<lambda>(env, cfg, attempt, lastErr, s). Suc (retryAttempts (config s)) - attempt))"
    by simp
next
  fix env :: environment and cfg :: AxiosRequestConfig and attempt :: nat
    and lastErr :: "AxiosError option" and s s' :: IntegrationLayer
    and x :: "AxiosError + AxiosResponse" and e :: AxiosError
  assume le: "attempt \<le> retryAttempts (config s)"
    and ax: "(x, s') = axiosRequest env cfg (bumpTotal s)"
    and x: "x = Inl e"
  have "config s' = config s"
    using ax
    by (auto simp: axiosRequest_def bumpTotal_def recordSuccess_def recordFailure_def Let_def
             split: prod.splits sum.splits)
  then show "((env, cfg, Suc attempt, Some e,
               if attempt < retryAttempts (config s') then delay (retryDelay (config s') * 2 ^ attempt) s' else s'),
              (env, cfg, attempt, lastErr, s))
             \<in> measure (\<lambda>(env, cfg, attempt, lastErr, s). Suc (retryAttempts (config s)) - attempt)"
    using le by (auto simp: delay_def)
qed

declare retryLoop.simps [simp del]

definition makeRequestWithRetry ::
  "environment \<Rightarrow> AxiosRequestConfig \<Rightarrow> IntegrationLayer \<Rightarrow> (AxiosError option + AxiosResponse) \<times> IntegrationLayer" where
  "makeRequestWithRetry env cfg s = retryLoop env cfg 0 None s"

subsection \<open>Sliding-window rate limiter\<close>

text \<open>
  \<open>Math.min(...requests)\<close> of an empty window is \<open>Infinity\<close>, and so is the wait
  computed from it.
\<close>

definition checkRateLimit :: "IntegrationLayer \<Rightarrow> IntegrationLayer" where
  "checkRateLimit s =
     (let now = clock s;
          windowStart = now - windowMs (rateLimitConfig s);
          key = baseURL (config s);
          requests = filter (\<lambda>timestamp. timestamp > windowStart)
                       (case rateLimitTracker s key of None \<Rightarrow> [] | Some r \<Rightarrow> r);
          s1 = (if length requests \<ge> maxRequests (rateLimitConfig s) then
                  (let s0 = s\<lparr>metrics := (metrics s)\<lparr>rateLimitHits := rateLimitHits (metrics s) + 1\<rparr>\<rparr>
                   in if requests = [] then delayInfinity s0
                      else (let oldestRequest = min_list requests;
                                waitTime = oldestRequest + windowMs (rateLimitConfig s) - now
                            in if waitTime > 0 then delay waitTime s0 else s0))
                else s)
      in s1\<lparr>rateLimitTracker := (rateLimitTracker s1)(key \<mapsto> requests @ [now])\<rparr>)"

subsection \<open>Keyed cache\<close>

definition getFromCache :: "string \<Rightarrow> IntegrationLayer \<Rightarrow> jsvalue \<times> IntegrationLayer" where
  "getFromCache key s =
     (case map_of (cache s) key of
        None \<Rightarrow> (JNull, s)
      | Some item \<Rightarrow>
          if clock s - item_timestamp item > ttl (cacheConfig s)
          then (JNull, s\<lparr>cache := AList.delete key (cache s)\<rparr>)
          else (item_data item, s\<lparr>cache := AList.update key (item\<lparr>hits := hits item + 1\<rparr>) (cache s)\<rparr>))"

text \<open>The body of the loop of \<open>evictLRU\<close>, on the pair of \<open>oldestKey\<close> and \<open>oldestTime\<close>.\<close>

definition lruStep :: "string \<times> int \<Rightarrow> string \<times> CacheItem \<Rightarrow> string \<times> int" where
  "lruStep = (\<lambda>(oldestKey, oldestTime) (key, item).
                if item_timestamp item < oldestTime then (key, item_timestamp item)
                else (oldestKey, oldestTime))"

definition evictLRU :: "IntegrationLayer \<Rightarrow> IntegrationLayer" where
  "evictLRU s =
     (let (oldestKey, oldestTime) = foldl lruStep ('''', clock s) (cache s)
      in if oldestKey \<noteq> '''' then s\<lparr>cache := AList.delete oldestKey (cache s)\<rparr> else s)"

definition evictFIFO :: "IntegrationLayer \<Rightarrow> IntegrationLayer" where
  "evictFIFO s =
     (case cache s of
        [] \<Rightarrow> s
      | (firstKey, item) # rest \<Rightarrow>
          if firstKey \<noteq> '''' then s\<lparr>cache := AList.delete firstKey (cache s)\<rparr> else s)"

text \<open>
  The body of the loop of \<open>evictLFU\<close>, on the pair of \<open>leastUsedKey\<close> and
  \<open>leastHits\<close>; \<open>leastHits\<close> starts at \<open>Infinity\<close>, written \<open>None\<close>.
\<close>

definition lfuStep :: "string \<times> nat option \<Rightarrow> string \<times> CacheItem \<Rightarrow> string \<times> nat option" where
  "lfuStep = (\<lambda>(leastUsedKey, leastHits) (key, item).
                if (case leastHits of None \<Rightarrow> True | Some h \<Rightarrow> hits item < h)
                then (key, Some (hits item))
                else (leastUsedKey, leastHits))"

definition evictLFU :: "IntegrationLayer \<Rightarrow> IntegrationLayer" where
  "evictLFU s =
     (let (leastUsedKey, leastHits) = foldl lfuStep ('''', None) (cache s)
      in if leastUsedKey \<noteq> '''' then s\<lparr>cache := AList.delete leastUsedKey (cache s)\<rparr> else s)"

definition evictFromCache :: "IntegrationLayer \<Rightarrow> IntegrationLayer" where
  "evictFromCache s =
     (case strategy (cacheConfig s) of
        LRU \<Rightarrow> evictLRU s
      | FIFO \<Rightarrow> evictFIFO s
      | LFU \<Rightarrow> evictLFU s)"

text \<open>The entry that \<open>setCache\<close> writes.\<close>

definition newItem :: "jsvalue \<Rightarrow> int \<Rightarrow> CacheItem" where
  "newItem v t = \<lparr>item_data = v, item_timestamp = t, hits = 0\<rparr>"

definition setCache :: "string \<Rightarrow> jsvalue \<Rightarrow> IntegrationLayer \<Rightarrow> IntegrationLayer" where
  "setCache key v s =
     (let s1 = (if length (cache s) \<ge> maxSize (cacheConfig s) then evictFromCache s else s)
      in s1\<lparr>cache := AList.update key (newItem v (clock s1)) (cache s1)\<rparr>)"

subsection \<open>Webhook delivery\<close>

text \<open>
  \<open>sendWebhook\<close> signs the serialised envelope and posts it. Serialising can throw and
  the POST can fail; \<open>False\<close> is either exception. The signature itself (an HMAC) and
  the ISO form of the timestamp are not modelled.
\<close>

definition sendWebhook ::
  "environment \<Rightarrow> string \<Rightarrow> WebhookConfig \<Rightarrow> string \<Rightarrow> jsvalue \<Rightarrow> IntegrationLayer \<Rightarrow> bool \<times> IntegrationLayer" where
  "sendWebhook env ident hook ev payload s =
     (case stringify (JObj [(''event'', JStr ev), (''timestamp'', JNum (clock s)), (''data'', payload)]) of
        Inl e \<Rightarrow> (False, s)
      | Inr sig \<Rightarrow>
          (let (took, ok) = hookNet env (hook_url hook)
           in (ok, s\<lparr>clock := clock s + took, trace := trace s @ [WebhookPost ident ok]\<rparr>)))"

text \<open>\<open>emitWebhook\<close> catches what \<open>sendWebhook\<close> throws and goes on.\<close>

definition emitWebhook :: "environment \<Rightarrow> string \<Rightarrow> jsvalue \<Rightarrow> IntegrationLayer \<Rightarrow> IntegrationLayer" where
  "emitWebhook env ev payload s =
     foldl (\<lambda>s (ident, hook).
              if ev \<in> set (hook_events hook) then snd (sendWebhook env ident hook ev payload s) else s)
           s (webhooks s)"

subsection \<open>The request pipeline\<close>

definition isGet :: "AxiosRequestConfig \<Rightarrow> bool" where
  "isGet cfg = (map_option toLowerCase (req_method cfg) = Some ''get'')"

definition configValue :: "AxiosRequestConfig \<Rightarrow> jsvalue" where
  "configValue cfg =
     JObj [(''url'', opt_str (req_url cfg)), (''method'', opt_str (req_method cfg)),
           (''params'', req_params cfg), (''data'', req_data cfg)]"

text \<open>
  The \<open>try\<close> block of \<open>request\<close>, in its stages. \<open>Inl\<close> is what the block
  throws: the value thrown by \<open>makeRequestWithRetry\<close>.

  The end of the block: a successful response of a cacheable GET is stored, and the
  result is built.
\<close>

fun respond ::
  "AxiosRequestConfig \<Rightarrow> string \<Rightarrow> int \<Rightarrow> (AxiosError option + AxiosResponse) \<times> IntegrationLayer
     \<Rightarrow> (AxiosError option + APIResponse) \<times> IntegrationLayer" where
  "respond cfg cacheKey startTime (Inl thrown, s) = (Inl thrown, s)"
| "respond cfg cacheKey startTime (Inr r, s) =
     (let s' = (if enabled (cacheConfig s) \<and> isGet cfg then setCache cacheKey (resp_data r) s else s)
      in (Inr \<lparr>success = True, data = Some (resp_data r), error = None,
                statusCode = Some (resp_status r),
                responseTime = Some (clock s' - startTime), cached = None\<rparr>, s'))"

text \<open>Rate-limit admission, then the HTTP call with retry.\<close>

definition fetch ::
  "environment \<Rightarrow> AxiosRequestConfig \<Rightarrow> string \<Rightarrow> int \<Rightarrow> IntegrationLayer
     \<Rightarrow> (AxiosError option + APIResponse) \<times> IntegrationLayer" where
  "fetch env cfg cacheKey startTime s =
     respond cfg cacheKey startTime (makeRequestWithRetry env cfg (checkRateLimit s))"

text \<open>
  After the cache read: \<open>if (cached)\<close> returns the cached value and counts a hit;
  otherwise a miss is counted and the call goes on.
\<close>

fun lookedUp ::
  "environment \<Rightarrow> AxiosRequestConfig \<Rightarrow> string \<Rightarrow> int \<Rightarrow> jsvalue \<times> IntegrationLayer
     \<Rightarrow> (AxiosError option + APIResponse) \<times> IntegrationLayer" where
  "lookedUp env cfg cacheKey startTime (cachedv, s) =
     (if truthy cachedv then
        (Inr \<lparr>success = True, data = Some cachedv, error = None, statusCode = None,
              responseTime = Some (clock s - startTime), cached = Some True\<rparr>,
         s\<lparr>metrics := (metrics s)\<lparr>cacheHits := cacheHits (metrics s) + 1\<rparr>\<rparr>)
      else fetch env cfg cacheKey startTime
             (s\<lparr>metrics := (metrics s)\<lparr>cacheMisses := cacheMisses (metrics s) + 1\<rparr>\<rparr>))"

definition requestBody ::
  "environment \<Rightarrow> AxiosRequestConfig \<Rightarrow> string \<Rightarrow> int \<Rightarrow> IntegrationLayer
     \<Rightarrow> (AxiosError option + APIResponse) \<times> IntegrationLayer" where
  "requestBody env cfg cacheKey startTime s =
     (if enabled (cacheConfig s) \<and> isGet cfg
      then lookedUp env cfg cacheKey startTime (getFromCache cacheKey s)
      else fetch env cfg cacheKey startTime s)"

text \<open>
  The \<open>catch\<close> block: it reads \<open>error.message\<close> of whatever was thrown, emits the
  failure webhook and returns the failure as a result.
\<close>

fun settle ::
  "environment \<Rightarrow> AxiosRequestConfig \<Rightarrow> int \<Rightarrow> (AxiosError option + APIResponse) \<times> IntegrationLayer
     \<Rightarrow> (exn + APIResponse) \<times> IntegrationLayer" where
  "settle env cfg startTime (Inr res, s) = (Inr res, s)"
| "settle env cfg startTime (Inl None, s) = (Inl (TypeError ''Cannot read properties of undefined''), s)"
| "settle env cfg startTime (Inl (Some e), s) =
     (let rt = clock s - startTime;
          s' = emitWebhook env ''api_failure''
                 (JObj [(''error'', JStr (err_message e)), (''config'', configValue cfg),
                        (''responseTime'', JNum rt)]) s
      in (Inr \<lparr>success = False, data = None, error = Some (err_message e),
                statusCode = err_status e, responseTime = Some rt, cached = None\<rparr>, s'))"

text \<open>
  \<open>request\<close>. \<open>Inl\<close> is an exception that reaches the caller (the returned promise
  rejects). The cache key is computed before the \<open>try\<close>.
\<close>

definition request ::
  "environment \<Rightarrow> AxiosRequestConfig \<Rightarrow> IntegrationLayer \<Rightarrow> (exn + APIResponse) \<times> IntegrationLayer" where
  "request env cfg s =
     (let startTime = clock s
      in case generateCacheKey cfg of
           Inl e \<Rightarrow> (Inl e, s)
         | Inr cacheKey \<Rightarrow> settle env cfg startTime (requestBody env cfg cacheKey startTime s))"

text \<open>The HTTP verbs: \<open>{ ...config, method, url, data }\<close>.\<close>

definition get ::
  "environment \<Rightarrow> string \<Rightarrow> AxiosRequestConfig \<Rightarrow> IntegrationLayer \<Rightarrow> (exn + APIResponse) \<times> IntegrationLayer" where
  "get env u cfg s = request env (cfg\<lparr>req_method := Some ''GET'', req_url := Some u\<rparr>) s"

definition post ::
  "environment \<Rightarrow> string \<Rightarrow> jsvalue \<Rightarrow> AxiosRequestConfig \<Rightarrow> IntegrationLayer
     \<Rightarrow> (exn + APIResponse) \<times> IntegrationLayer" where
  "post env u d cfg s = request env (cfg\<lparr>req_method := Some ''POST'', req_url := Some u, req_data := d\<rparr>) s"

definition put ::
  "environment \<Rightarrow> string \<Rightarrow> jsvalue \<Rightarrow> AxiosRequestConfig \<Rightarrow> IntegrationLayer
     \<Rightarrow> (exn + APIResponse) \<times> IntegrationLayer" where
  "put env u d cfg s = request env (cfg\<lparr>req_method := Some ''PUT'', req_url := Some u, req_data := d\<rparr>) s"

definition delete ::
  "environment \<Rightarrow> string \<Rightarrow> AxiosRequestConfig \<Rightarrow> IntegrationLayer \<Rightarrow> (exn + APIResponse) \<times> IntegrationLayer" where
  "delete env u cfg s = request env (cfg\<lparr>req_method := Some ''DELETE'', req_url := Some u\<rparr>) s"

text \<open>The configuration a verb starts from when the caller passes none.\<close>

definition noConfig :: AxiosRequestConfig where
  "noConfig = \<lparr>req_url = None, req_method = None, req_params = JUndefined, req_data = JUndefined\<rparr>"

section \<open>The cross-service monitor\<close>

datatype LogLevel = Debug | Info | Warn | Error

record LogEntry =
  timestamp :: int
  level :: LogLevel
  service :: string
  operation :: string
  message :: string
  metadata :: jsvalue
  correlationId :: "string option"
  userId :: "string option"
  duration :: "int option"
  log_statusCode :: "int option"
  log_error :: "(string \<times> string) option"

datatype channelType = Email | Webhook | Slack | Teams

record channel =
  channel_type :: channelType
  channel_url :: string

record AlertConfig =
  alerts_enabled :: bool
  cooldown :: int
  channels :: "channel list"

text \<open>\<open>retentionPeriod\<close> is in days, the cooldown and the clock in milliseconds.\<close>

record MonitoringConfig =
  logLevel :: LogLevel
  retentionPeriod :: int
  maxLogEntries :: int
  alertConfig :: AlertConfig

datatype severity = SevInfo | SevWarning | SevCritical

record Alert =
  alert_service :: string
  alertType :: string
  alert_timestamp :: int
  alert_message :: string
  alert_severity :: severity

datatype HealthStatus = Healthy | Degraded | Unhealthy

datatype monitor_event = EmitLog LogEntry | EmitAlert Alert

text \<open>
  The fields of the monitor that logging and alerting use, the events it has emitted,
  and the channel deliveries that \<open>triggerAlert\<close> has still to await.
\<close>

record Monitor =
  logs :: "LogEntry list"
  alertCooldowns :: "string \<rightharpoonup> int"
  mconfig :: MonitoringConfig
  emitted :: "monitor_event list"
  pending :: "(channel \<times> Alert) list"

definition newMonitor :: "MonitoringConfig \<Rightarrow> Monitor" where
  "newMonitor c = \<lparr>logs = [], alertCooldowns = Map.empty, mconfig = c, emitted = [], pending = []\<rparr>"

primrec levelIndex :: "LogLevel \<Rightarrow> nat" where
  "levelIndex Debug = 0"
| "levelIndex Info = 1"
| "levelIndex Warn = 2"
| "levelIndex Error = 3"

definition shouldLog :: "Monitor \<Rightarrow> LogLevel \<Rightarrow> bool" where
  "shouldLog m l = (levelIndex l \<ge> levelIndex (logLevel (mconfig m)))"

text \<open>
  \<open>xs.slice(start)\<close> of JavaScript: a negative start counts from the end, and
  \<open>-0\<close> is \<open>0\<close>.
\<close>

definition slice :: "int \<Rightarrow> 'a list \<Rightarrow> 'a list" where
  "slice start xs =
     (if start < 0 then drop (nat (int (length xs) + start)) xs else drop (nat start) xs)"

text \<open>\<open>addLogEntry\<close>, with \<open>now\<close> the reading of \<open>Date.now()\<close>.\<close>

definition addLogEntry :: "int \<Rightarrow> LogEntry \<Rightarrow> Monitor \<Rightarrow> Monitor" where
  "addLogEntry now entry m =
     (let pushed = logs m @ [entry];
          capped = (if int (length pushed) > maxLogEntries (mconfig m)
                    then slice (- maxLogEntries (mconfig m)) pushed else pushed);
          cutoffDate = now - retentionPeriod (mconfig m) * 24 * 60 * 60 * 1000
      in m\<lparr>logs := filter (\<lambda>l. timestamp l > cutoffDate) capped\<rparr>)"

text \<open>
  \<open>triggerAlert\<close> up to its first \<open>await\<close>: the alert event is emitted at once, the
  deliveries to the channels follow later.
\<close>

definition triggerAlert :: "int \<Rightarrow> string \<Rightarrow> string \<Rightarrow> string \<Rightarrow> severity \<Rightarrow> Monitor \<Rightarrow> Monitor" where
  "triggerAlert now serviceName ty msg sev m =
     (let a = \<lparr>alert_service = serviceName, alertType = ty, alert_timestamp = now,
                alert_message = msg, alert_severity = sev\<rparr>
      in m\<lparr>emitted := emitted m @ [EmitAlert a],
            pending := pending m @ map (\<lambda>c. (c, a)) (channels (alertConfig (mconfig m)))\<rparr>)"

definition checkAlerts :: "int \<Rightarrow> string \<Rightarrow> LogEntry \<Rightarrow> Monitor \<Rightarrow> Monitor" where
  "checkAlerts now serviceName entry m =
     (if \<not> alerts_enabled (alertConfig (mconfig m)) then m
      else
        (let cooldownKey = serviceName @ ''_error''
         in if (case alertCooldowns m cooldownKey of
                  None \<Rightarrow> False
                | Some lastAlert \<Rightarrow> now - lastAlert < cooldown (alertConfig (mconfig m)))
            then m
            else
              (let m1 = triggerAlert now serviceName ''high_error_rate''
                          (''High error rate detected in '' @ serviceName) SevWarning m
               in m1\<lparr>alertCooldowns := (alertCooldowns m1)(cooldownKey \<mapsto> now)\<rparr>)))"

text \<open>
  \<open>log\<close> of the monitor, called at time \<open>now\<close> with the entry's fields (the timestamp of
  \<open>args\<close> is overwritten with \<open>now\<close>). The call is synchronous: every reading of the
  clock in it is \<open>now\<close>.
\<close>

definition monitorLog :: "int \<Rightarrow> LogEntry \<Rightarrow> Monitor \<Rightarrow> Monitor" where
  "monitorLog now args m =
     (if \<not> shouldLog m (level args) then m
      else
        (let logEntry = args\<lparr>timestamp := now\<rparr>;
             m1 = addLogEntry now logEntry m;
             m2 = m1\<lparr>emitted := emitted m1 @ [EmitLog logEntry]\<rparr>
         in if level args = Error then checkAlerts now (service args) logEntry m2 else m2))"

definition mkEntry :: "LogLevel \<Rightarrow> string \<Rightarrow> string \<Rightarrow> string \<Rightarrow> LogEntry" where
  "mkEntry l sv opn msg =
     \<lparr>timestamp = 0, level = l, service = sv, operation = opn, message = msg, metadata = JUndefined,
      correlationId = None, userId = None, duration = None, log_statusCode = None, log_error = None\<rparr>"

primrec channelName :: "channelType \<Rightarrow> string" where
  "channelName Email = ''email''"
| "channelName Webhook = ''webhook''"
| "channelName Slack = ''slack''"
| "channelName Teams = ''teams''"

text \<open>
  The next awaited channel delivery of \<open>triggerAlert\<close> completes at time \<open>now\<close>;
  a failed one is logged at error level for the service \<open>monitor\<close>.
\<close>

definition deliverAlert :: "int \<Rightarrow> bool \<Rightarrow> Monitor \<Rightarrow> Monitor" where
  "deliverAlert now ok m =
     (case pending m of
        [] \<Rightarrow> m
      | (c, a) # rest \<Rightarrow>
          (let m1 = m\<lparr>pending := rest\<rparr>
           in if ok then m1
              else monitorLog now
                     (mkEntry Error ''monitor'' ''alert_delivery''
                        (''Failed to send alert to '' @ channelName (channel_type c))) m1))"

definition getRecentErrors :: "string \<Rightarrow> nat \<Rightarrow> Monitor \<Rightarrow> LogEntry list" where
  "getRecentErrors serviceName limit m =
     take limit (sort_key (\<lambda>l. - timestamp l)
                   (filter (\<lambda>l. service l = serviceName \<and> level l = Error) (logs m)))"

definition determineHealthStatus :: "bool \<Rightarrow> IntegrationMetrics \<Rightarrow> LogEntry list \<Rightarrow> HealthStatus" where
  "determineHealthStatus healthy m recentErrors =
     (if \<not> healthy then Unhealthy
      else
        (let errorRate = (if totalRequests m > 0 then real (failedRequests m) / real (totalRequests m) else 0);
             avgResponseTime = averageResponseTime m
         in if errorRate > 0.1 \<or> avgResponseTime > 10000 then Unhealthy
            else if errorRate > 0.05 \<or> avgResponseTime > 5000 \<or> length recentErrors > 3 then Degraded
            else Healthy))"

text \<open>The alerts among the emitted events.\<close>

fun alertsOf :: "monitor_event list \<Rightarrow> Alert list" where
  "alertsOf [] = []"
| "alertsOf (EmitAlert a # es) = a # alertsOf es"
| "alertsOf (EmitLog l # es) = alertsOf es"

text \<open>The error rate that \<open>determineHealthStatus\<close> computes from the metrics.\<close>

definition errorRate :: "IntegrationMetrics \<Rightarrow> real" where
  "errorRate m = (if totalRequests m > 0 then real (failedRequests m) / real (totalRequests m) else 0)"

section \<open>Configurations and scenarios\<close>

text \<open>The monitoring configuration of the test suite, with no alert channel.\<close>

definition testAlertConfig :: AlertConfig where
  "testAlertConfig = \<lparr>alerts_enabled = True, cooldown = 300000, channels = []\<rparr>"

definition testMonitoringConfig :: MonitoringConfig where
  "testMonitoringConfig =
     \<lparr>logLevel = Info, retentionPeriod = 7, maxLogEntries = 1000, alertConfig = testAlertConfig\<rparr>"

text \<open>A sequence of calls of \<open>log\<close>, each with the time at which it is made.\<close>

definition logAll :: "(int \<times> LogEntry) list \<Rightarrow> Monitor \<Rightarrow> Monitor" where
  "logAll calls m = foldl (\<lambda>m (t, e). monitorLog t e m) m calls"

text \<open>The key under which \<open>checkAlerts\<close> keeps the cooldown of a service.\<close>

definition errorKey :: "string \<Rightarrow> string" where
  "errorKey serviceName = serviceName @ ''_error''"

text \<open>No error alert of the service is in its cooldown at time \<open>t\<close>.\<close>

definition cooledDown :: "Monitor \<Rightarrow> string \<Rightarrow> int \<Rightarrow> bool" where
  "cooledDown m serviceName t =
     (case alertCooldowns m (errorKey serviceName) of
        None \<Rightarrow> True
      | Some lastAlert \<Rightarrow> cooldown (alertConfig (mconfig m)) \<le> t - lastAlert)"

text \<open>The alert that \<open>checkAlerts\<close> raises for a service at time \<open>t\<close>.\<close>

definition errorAlert :: "string \<Rightarrow> int \<Rightarrow> Alert" where
  "errorAlert serviceName t =
     \<lparr>alert_service = serviceName, alertType = ''high_error_rate'', alert_timestamp = t,
      alert_message = ''High error rate detected in '' @ serviceName, alert_severity = SevWarning\<rparr>"


text \<open>Time that passes between two calls.\<close>

definition tick :: "int \<Rightarrow> IntegrationLayer \<Rightarrow> IntegrationLayer" where
  "tick d s = s\<lparr>clock := clock s + d\<rparr>"

text \<open>The HTTP attempts and the suspensions of a trace, in their order.\<close>

primrec isAttemptOrDelay :: "event \<Rightarrow> bool" where
  "isAttemptOrDelay (Http n) = True"
| "isAttemptOrDelay (Delay ms) = True"
| "isAttemptOrDelay DelayInfinity = True"
| "isAttemptOrDelay (Emit_api_success c u v) = False"
| "isAttemptOrDelay (Emit_api_failure e c u v) = False"
| "isAttemptOrDelay (WebhookPost i ok) = False"

definition attemptsOf :: "event list \<Rightarrow> event list" where
  "attemptsOf es = filter isAttemptOrDelay es"

text \<open>
  The attempts of a retry loop whose next \<open>j\<close> attempts fail: attempt number \<open>a + i\<close>
  of the loop is HTTP attempt \<open>c + i\<close> and is followed by a wait of
  \<open>d * 2 ^ (a + i)\<close>; attempt \<open>a + j\<close> is the last one.
\<close>

definition schedule :: "int \<Rightarrow> nat \<Rightarrow> nat \<Rightarrow> nat \<Rightarrow> event list" where
  "schedule d a c j = concat (map (\<lambda>i. [Http (c + i), Delay (d * 2 ^ (a + i))]) [0..<j]) @ [Http (c + j)]"

text \<open>The executor of the test suite: two retries, one second of base delay.\<close>

definition testAPIConfig :: APIConfig where
  "testAPIConfig = \<lparr>baseURL = ''https://mock-api.test.com/v1'', retryAttempts = 2, retryDelay = 1000\<rparr>"

definition testLayer :: IntegrationLayer where
  "testLayer = newLayer testAPIConfig defaultRateLimitConfig defaultCacheConfig 0"

definition networkError :: AxiosError where
  "networkError = \<lparr>err_message = ''Network error'', err_status = None\<rparr>"

definition okResponse :: "jsvalue \<Rightarrow> real \<Rightarrow> AxiosResponse" where
  "okResponse d t = \<lparr>resp_data = d, resp_status = 200, resp_time = Some t\<rparr>"

text \<open>A network whose first \<open>n\<close> attempts fail and whose later attempts answer \<open>d\<close>.\<close>

definition failsThenOk :: "nat \<Rightarrow> jsvalue \<Rightarrow> environment" where
  "failsThenOk n d =
     \<lparr>net = (\<lambda>i. (0, if i < n then Inl networkError else Inr (okResponse d 200))),
      hookNet = (\<lambda>u. (0, True))\<rparr>"




text \<open>An executor whose cache holds two entries, for each eviction strategy.\<close>

definition smallCache :: "strategy \<Rightarrow> IntegrationLayer" where
  "smallCache st =
     newLayer testAPIConfig defaultRateLimitConfig \<lparr>enabled = True, ttl = 300000, maxSize = 2, strategy = st\<rparr> 0"

text \<open>What a caller and an operator see of a call: the result, the metrics, the trace.\<close>

definition observed ::
  "(exn + APIResponse) \<times> IntegrationLayer \<Rightarrow> (exn + APIResponse) \<times> IntegrationMetrics \<times> event list" where
  "observed p = (fst p, metrics (snd p), trace (snd p))"

text \<open>
  The executor of the test suite after a first GET of \<open>/test-malformed\<close> that the
  server answered with status 200 and the body \<open>null\<close>, and after a first GET of
  \<open>/empty\<close> answered with status 200 and an empty body.
\<close>

definition afterNullGet :: IntegrationLayer where
  "afterNullGet = snd (get (failsThenOk 0 JNull) ''/test-malformed'' noConfig testLayer)"

definition afterEmptyGet :: IntegrationLayer where
  "afterEmptyGet = snd (get (failsThenOk 0 (JStr '''')) ''/empty'' noConfig testLayer)"

text \<open>The entries of the cache: key, value, and whether the entry has expired.\<close>

definition cacheEntries :: "IntegrationLayer \<Rightarrow> (string \<times> jsvalue \<times> bool) list" where
  "cacheEntries s =
     map (\<lambda>(k, i). (k, item_data i, clock s - item_timestamp i > ttl (cacheConfig s))) (cache s)"

text \<open>Metrics with the given numbers of requests and failures and the given average.\<close>

definition metricsWith :: "nat \<Rightarrow> nat \<Rightarrow> real \<Rightarrow> IntegrationMetrics" where
  "metricsWith n failed avg =
     initialMetrics\<lparr>totalRequests := n, failedRequests := failed, averageResponseTime := avg\<rparr>"

text \<open>\<open>n\<close> error entries of a service, as the log store holds them after \<open>n\<close> failed requests.\<close>

definition errorEntries :: "string \<Rightarrow> nat \<Rightarrow> LogEntry list" where
  "errorEntries sv n = replicate n (mkEntry Error sv ''api_request'' ''API request failed'')"

section \<open>Health classification\<close>

text \<open>
  Claim C7, amended. The status of a health evaluation follows the order of the
  checks: an unhealthy probe gives unhealthy; otherwise an error rate above 0.10 or an
  average response time above 10000 ms gives unhealthy; otherwise an error rate above
  0.05, an average response time above 5000 ms or more than 3 recent errors gives
  degraded; otherwise the service is healthy. So an error rate of 0.11 is unhealthy;
  0.06 with an average of 100 ms is degraded when the probe is healthy; 0.01 with an
  average of 100 ms is healthy when the probe is healthy and at most 3 recent errors
  are on record.
\<close>

theorem determineHealthStatus_order:
  "(determineHealthStatus healthy m recentErrors = Unhealthy)
     = (\<not> healthy \<or> errorRate m > 0.1 \<or> averageResponseTime m > 10000)
   \<and> (determineHealthStatus healthy m recentErrors = Degraded)
     = (healthy \<and> \<not> (errorRate m > 0.1 \<or> averageResponseTime m > 10000)
        \<and> (errorRate m > 0.05 \<or> averageResponseTime m > 5000 \<or> length recentErrors > 3))
   \<and> (determineHealthStatus healthy m recentErrors = Healthy)
     = (healthy \<and> \<not> (errorRate m > 0.1 \<or> averageResponseTime m > 10000)
        \<and> \<not> (errorRate m > 0.05 \<or> averageResponseTime m > 5000 \<or> length recentErrors > 3))"
  by (simp add: determineHealthStatus_def errorRate_def Let_def)

text \<open>
  The three cases, at metrics with 100 requests: 11 failures (error rate 0.11) are
  unhealthy whatever the probe says; 6 failures with an average of 100 ms and a healthy
  probe are degraded; 1 failure with an average of 100 ms, a healthy probe and three
  recent errors is healthy.
\<close>

theorem determineHealthStatus_order_witness:
  "errorRate (metricsWith 100 11 0) = 11 / 100
   \<and> determineHealthStatus True (metricsWith 100 11 0) [] = Unhealthy
   \<and> determineHealthStatus False (metricsWith 100 11 0) [] = Unhealthy
   \<and> determineHealthStatus True (metricsWith 100 6 100) [] = Degraded
   \<and> determineHealthStatus True (metricsWith 100 1 100) (errorEntries ''banking'' 3) = Healthy"
proof -
  have "errorRate (metricsWith 100 11 0) = 11 / 100"
    by (simp add: errorRate_def metricsWith_def initialMetrics_def)
  moreover have "determineHealthStatus True (metricsWith 100 11 0) [] = Unhealthy"
    using determineHealthStatus_order [of True "metricsWith 100 11 0" "[]"]
    by (simp add: errorRate_def metricsWith_def initialMetrics_def)
  moreover have "determineHealthStatus False (metricsWith 100 11 0) [] = Unhealthy"
    using determineHealthStatus_order [of False "metricsWith 100 11 0" "[]"]
    by (simp add: errorRate_def metricsWith_def initialMetrics_def)
  moreover have "determineHealthStatus True (metricsWith 100 6 100) [] = Degraded"
    using determineHealthStatus_order [of True "metricsWith 100 6 100" "[]"]
    by (simp add: errorRate_def metricsWith_def initialMetrics_def)
  moreover have "determineHealthStatus True (metricsWith 100 1 100) (errorEntries ''banking'' 3) = Healthy"
    using determineHealthStatus_order [of True "metricsWith 100 1 100" "errorEntries ''banking'' 3"]
    by (simp add: errorRate_def metricsWith_def initialMetrics_def errorEntries_def)
  ultimately show ?thesis by blast
qed

text \<open>
  The cases of the claim as stated leave out the checks that come first. An error
  rate of 0.01 (4 failures of 400 requests) with an average of 100 ms and a healthy
  probe is degraded, not healthy, once the four failures are on record as recent
  errors; an error rate of 0.06 with an average of 100 ms is unhealthy, not degraded,
  when the probe is unhealthy.
\<close>

theorem determineHealthStatus_cases_counterexample:
  "errorRate (metricsWith 400 4 100) = 1 / 100
   \<and> averageResponseTime (metricsWith 400 4 100) = 100
   \<and> determineHealthStatus True (metricsWith 400 4 100) (errorEntries ''banking'' 4) = Degraded
   \<and> errorRate (metricsWith 100 6 100) = 6 / 100
   \<and> determineHealthStatus False (metricsWith 100 6 100) [] = Unhealthy"
  by (simp add: determineHealthStatus_def errorRate_def metricsWith_def initialMetrics_def
      errorEntries_def Let_def)

text \<open>The recent errors that a health evaluation passes on are at most \<open>limit\<close> entries.\<close>

lemma getRecentErrors_length: "length (getRecentErrors serviceName limit m) \<le> limit"
  by (simp add: getRecentErrors_def)

lemma getRecentErrors_errors:
  "l \<in> set (getRecentErrors serviceName limit m) \<Longrightarrow> service l = serviceName \<and> level l = Error"
proof -
  assume "l \<in> set (getRecentErrors serviceName limit m)"
  then have "l \<in> set (sort_key (\<lambda>l. - timestamp l)
                (filter (\<lambda>l. service l = serviceName \<and> level l = Error) (logs m)))"
    unfolding getRecentErrors_def by (rule in_set_takeD)
  then show ?thesis by simp
qed

section \<open>The log store\<close>

lemma length_slice_neg:
  "0 < n \<Longrightarrow> n < int (length xs) \<Longrightarrow> int (length (slice (- n) xs)) = n"
  by (simp add: slice_def)

lemma subseq_slice: "subseq (slice k xs) xs"
proof -
  have "subseq (drop j xs) xs" for j
    by (metis append_take_drop_id subseq_drop_many subseq_order.order_refl)
  then show ?thesis by (simp add: slice_def)
qed

text \<open>With a cap of at least one entry, the store never holds more than the cap.\<close>

lemma addLogEntry_cap:
  assumes "0 < maxLogEntries (mconfig m)"
  shows "int (length (logs (addLogEntry now e m))) \<le> maxLogEntries (mconfig m)"
proof -
  let ?pushed = "logs m @ [e]"
  let ?capped = "if int (length ?pushed) > maxLogEntries (mconfig m)
                 then slice (- maxLogEntries (mconfig m)) ?pushed else ?pushed"
  have cap: "int (length ?capped) \<le> maxLogEntries (mconfig m)"
    using assms length_slice_neg [of "maxLogEntries (mconfig m)" ?pushed] by auto
  have fil: "int (length (filter P ?capped)) \<le> int (length ?capped)" for P
    by simp
  have sel: "logs (m\<lparr>logs := ys\<rparr>) = ys" for ys
    by simp
  show ?thesis
    unfolding addLogEntry_def Let_def sel by (rule order_trans [OF fil cap])
qed

text \<open>Nothing older than the retention period stays in the store.\<close>

lemma addLogEntry_retention:
  "l \<in> set (logs (addLogEntry now e m))
     \<Longrightarrow> now - retentionPeriod (mconfig m) * 24 * 60 * 60 * 1000 < timestamp l"
  by (simp add: addLogEntry_def Let_def)

text \<open>Entries are only dropped: what is kept is kept as it was and in its order.\<close>

lemma addLogEntry_subseq: "subseq (logs (addLogEntry now e m)) (logs m @ [e])"
proof -
  have kept: "subseq (filter P (if c then slice k xs else xs)) xs"
    for P c k and xs :: "LogEntry list"
  proof (cases c)
    case True
    have "subseq (filter P (slice k xs)) (slice k xs)" by (rule subseq_filter_left)
    then have "subseq (filter P (slice k xs)) xs"
      using subseq_slice [of k xs] subseq_order.order_trans by blast
    with True show ?thesis by simp
  next
    case False
    then show ?thesis by simp
  qed
  have sel: "logs (m\<lparr>logs := ys\<rparr>) = ys" for ys
    by simp
  show ?thesis
    unfolding addLogEntry_def Let_def sel by (rule kept)
qed

lemma addLogEntry_mconfig [simp]: "mconfig (addLogEntry now e m) = mconfig m"
  by (simp add: addLogEntry_def Let_def)

text \<open>
  Claim C9: after every insert the store holds at most \<open>maxLogEntries\<close> entries and
  nothing older than the retention period. The lemmas above prove it for a cap of at
  least one entry. At a cap of zero the first part fails: \<open>logs.slice(-0)\<close> is the
  whole array, so the cap is not applied and the store keeps both entries of two
  inserts.
\<close>

theorem addLogEntry_cap_zero:
  "maxLogEntries (mconfig (newMonitor (testMonitoringConfig\<lparr>maxLogEntries := 0\<rparr>))) = 0
   \<and> length (logs (addLogEntry 2000 (mkEntry Info ''svc'' ''op'' ''second'' \<lparr>timestamp := 2000\<rparr>)
               (addLogEntry 1000 (mkEntry Info ''svc'' ''op'' ''first'' \<lparr>timestamp := 1000\<rparr>)
                  (newMonitor (testMonitoringConfig\<lparr>maxLogEntries := 0\<rparr>))))) = 2"
  by (simp add: addLogEntry_def newMonitor_def testMonitoringConfig_def mkEntry_def slice_def Let_def)

section \<open>Alert cooldown\<close>

lemma alertsOf_append: "alertsOf (xs @ ys) = alertsOf xs @ alertsOf ys"
  by (induction xs rule: alertsOf.induct) simp_all

lemma shouldLog_Error: "shouldLog m Error"
  by (cases "logLevel (mconfig m)") (simp_all add: shouldLog_def)

lemma monitorLog_mconfig: "mconfig (monitorLog t e m) = mconfig m"
  by (simp add: monitorLog_def checkAlerts_def triggerAlert_def Let_def)

text \<open>An error entry outside the cooldown raises one alert and starts the cooldown.\<close>

lemma monitorLog_error_fires:
  assumes "alerts_enabled (alertConfig (mconfig m))" and "level e = Error" and "service e = sv"
    and "cooledDown m sv t"
  shows "alertsOf (emitted (monitorLog t e m)) = alertsOf (emitted m) @ [errorAlert sv t]"
    and "alertCooldowns (monitorLog t e m) = (alertCooldowns m)(errorKey sv \<mapsto> t)"
  using assms shouldLog_Error [of m]
  by (auto simp: monitorLog_def checkAlerts_def triggerAlert_def cooledDown_def errorKey_def
      errorAlert_def alertsOf_append Let_def addLogEntry_def split: option.splits)

text \<open>An error entry inside the cooldown raises nothing and leaves the cooldown as it is.\<close>

lemma monitorLog_error_suppressed:
  assumes "alerts_enabled (alertConfig (mconfig m))" and "level e = Error" and "service e = sv"
    and "alertCooldowns m (errorKey sv) = Some t0"
    and "t - t0 < cooldown (alertConfig (mconfig m))"
  shows "alertsOf (emitted (monitorLog t e m)) = alertsOf (emitted m)"
    and "alertCooldowns (monitorLog t e m) = alertCooldowns m"
    and "pending (monitorLog t e m) = pending m"
  using assms shouldLog_Error [of m]
  by (auto simp: monitorLog_def checkAlerts_def errorKey_def alertsOf_append Let_def addLogEntry_def)

lemma logAll_suppressed:
  assumes "alerts_enabled (alertConfig (mconfig m))"
    and "alertCooldowns m (errorKey sv) = Some t0"
    and "\<forall>(t, e) \<in> set later. level e = Error \<and> service e = sv \<and> t - t0 < cooldown (alertConfig (mconfig m))"
  shows "alertsOf (emitted (logAll later m)) = alertsOf (emitted m)
         \<and> alertCooldowns (logAll later m) = alertCooldowns m
         \<and> pending (logAll later m) = pending m"
  using assms
proof (induction later arbitrary: m)
  case Nil
  then show ?case by (simp add: logAll_def)
next
  case (Cons c later)
  obtain t e where c: "c = (t, e)" by (cases c)
  from Cons.prems c have e: "level e = Error" "service e = sv" "t - t0 < cooldown (alertConfig (mconfig m))"
    by auto
  note step = monitorLog_error_suppressed [OF Cons.prems(1) e(1,2) Cons.prems(2) e(3)]
  have "alertsOf (emitted (logAll later (monitorLog t e m))) = alertsOf (emitted (monitorLog t e m))
        \<and> alertCooldowns (logAll later (monitorLog t e m)) = alertCooldowns (monitorLog t e m)
        \<and> pending (logAll later (monitorLog t e m)) = pending (monitorLog t e m)"
    using Cons.prems by (intro Cons.IH) (auto simp: monitorLog_mconfig step)
  then show ?case
    by (simp add: logAll_def c step)
qed

text \<open>
  Claim C8, amended. With alerting enabled and no error alert of the service in its
  cooldown, an error-level entry at time \<open>t1\<close> raises the alert and records \<open>t1\<close>
  as the cooldown timestamp; every further error-level entry of the same service
  that arrives less than the cooldown after \<open>t1\<close> is suppressed: it raises no
  alert, queues no delivery and leaves the cooldown timestamp. Two such entries
  give exactly one alert.
\<close>

theorem error_alert_cooldown:
  assumes "alerts_enabled (alertConfig (mconfig m))"
    and "level e1 = Error" and "service e1 = sv"
    and "cooledDown m sv t1"
    and "\<forall>(t, e) \<in> set later. level e = Error \<and> service e = sv \<and> t - t1 < cooldown (alertConfig (mconfig m))"
  shows "alertsOf (emitted (logAll ((t1, e1) # later) m)) = alertsOf (emitted m) @ [errorAlert sv t1]
         \<and> alertCooldowns (monitorLog t1 e1 m) (errorKey sv) = Some t1
         \<and> alertCooldowns (logAll ((t1, e1) # later) m) (errorKey sv) = Some t1
         \<and> pending (logAll ((t1, e1) # later) m) = pending (monitorLog t1 e1 m)"
proof -
  let ?m1 = "monitorLog t1 e1 m"
  note first = monitorLog_error_fires [OF assms(1-4)]
  have key: "alertCooldowns ?m1 (errorKey sv) = Some t1"
    by (simp add: first(2))
  have rest: "alertsOf (emitted (logAll later ?m1)) = alertsOf (emitted ?m1)
              \<and> alertCooldowns (logAll later ?m1) = alertCooldowns ?m1
              \<and> pending (logAll later ?m1) = pending ?m1"
    using assms(1,5) by (intro logAll_suppressed [OF _ key]) (auto simp: monitorLog_mconfig)
  have "logAll ((t1, e1) # later) m = logAll later ?m1"
    by (simp add: logAll_def)
  then show ?thesis
    using rest key first(1) by simp
qed

text \<open>
  Two error entries of the service \<open>banking\<close>, one second apart, under the test
  configuration (cooldown 300000 ms): one alert, raised by the first.
\<close>

theorem error_alert_cooldown_witness:
  "alertsOf (emitted (logAll [(1000, mkEntry Error ''banking'' ''api_request'' ''API request failed''),
                              (2000, mkEntry Error ''banking'' ''api_request'' ''API request failed'')]
                       (newMonitor testMonitoringConfig)))
     = [errorAlert ''banking'' 1000]"
proof -
  let ?e = "mkEntry Error ''banking'' ''api_request'' ''API request failed''"
  let ?m = "newMonitor testMonitoringConfig"
  have "alerts_enabled (alertConfig (mconfig ?m))"
    by (simp add: newMonitor_def testMonitoringConfig_def testAlertConfig_def)
  moreover have "level ?e = Error" "service ?e = ''banking''"
    by (simp_all add: mkEntry_def)
  moreover have "cooledDown ?m ''banking'' 1000"
    by (simp add: cooledDown_def newMonitor_def)
  moreover have "\<forall>(t, e) \<in> set [(2000, ?e)]. level e = Error \<and> service e = ''banking''
                   \<and> t - 1000 < cooldown (alertConfig (mconfig ?m))"
    by (simp add: mkEntry_def newMonitor_def testMonitoringConfig_def testAlertConfig_def)
  ultimately have "alertsOf (emitted (logAll ((1000, ?e) # [(2000, ?e)]) ?m))
                     = alertsOf (emitted ?m) @ [errorAlert ''banking'' 1000]"
    using error_alert_cooldown [of ?m ?e "''banking''" 1000 "[(2000, ?e)]"] by blast
  then show ?thesis
    by (simp add: newMonitor_def)
qed

text \<open>
  The claim as stated fails when alerting is switched off: \<open>checkAlerts\<close> returns at
  once, and the same two entries raise no alert at all.
\<close>

theorem error_alert_disabled_counterexample:
  "level (mkEntry Error ''banking'' ''api_request'' ''API request failed'') = Error
   \<and> 2000 - 1000 < cooldown (alertConfig (testMonitoringConfig\<lparr>alertConfig := testAlertConfig\<lparr>alerts_enabled := False\<rparr>\<rparr>))
   \<and> alertsOf (emitted (logAll [(1000, mkEntry Error ''banking'' ''api_request'' ''API request failed''),
                                (2000, mkEntry Error ''banking'' ''api_request'' ''API request failed'')]
                         (newMonitor (testMonitoringConfig\<lparr>alertConfig := testAlertConfig\<lparr>alerts_enabled := False\<rparr>\<rparr>))))
       = []"
  by (simp add: logAll_def monitorLog_def checkAlerts_def shouldLog_def addLogEntry_def newMonitor_def
      testMonitoringConfig_def testAlertConfig_def mkEntry_def Let_def)

section \<open>Rate limiter\<close>






section \<open>Retry with exponential backoff\<close>

lemma schedule_0: "schedule d a c 0 = [Http c]"
  by (simp add: schedule_def)

lemma schedule_Suc: "schedule d a c (Suc j) = Http c # Delay (d * 2 ^ a) # schedule d (Suc a) (Suc c) j"
proof -
  have "[0..<Suc j] = 0 # map Suc [0..<j]"
    by (metis upt_conv_Cons map_Suc_upt zero_less_Suc)
  then show ?thesis
    by (simp add: schedule_def comp_def del: upt_Suc)
qed

lemma attemptsOf_append: "attemptsOf (xs @ ys) = attemptsOf xs @ attemptsOf ys"
  by (simp add: attemptsOf_def)

lemma axiosRequest_fail:
  assumes "snd (net env (netCalls s)) = Inl e"
  shows "fst (axiosRequest env cfg (bumpTotal s)) = Inl e"
    and "config (snd (axiosRequest env cfg (bumpTotal s))) = config s"
    and "netCalls (snd (axiosRequest env cfg (bumpTotal s))) = Suc (netCalls s)"
    and "attemptsOf (trace (snd (axiosRequest env cfg (bumpTotal s)))) = attemptsOf (trace s) @ [Http (netCalls s)]"
  using assms
  by (auto simp: axiosRequest_def bumpTotal_def recordFailure_def attemptsOf_def Let_def split: prod.splits)


lemma delay_facts:
  "config (delay ms s) = config s" "netCalls (delay ms s) = netCalls s"
  "attemptsOf (trace (delay ms s)) = attemptsOf (trace s) @ [Delay ms]"
  by (simp_all add: delay_def attemptsOf_def)



lemma retryLoop_exhausted:
  assumes "\<forall>i<n. isl (snd (net env (netCalls s + i)))"
    and "snd (net env (netCalls s + n)) = Inl e"
    and "a + n = retryAttempts (config s)"
  shows "fst (retryLoop env cfg a le s) = Inl (Some e)
         \<and> attemptsOf (trace (snd (retryLoop env cfg a le s)))
             = attemptsOf (trace s) @ schedule (retryDelay (config s)) a (netCalls s) n
         \<and> netCalls (snd (retryLoop env cfg a le s)) = netCalls s + n + 1"
  using assms
proof (induction n arbitrary: a le s)
  case 0
  then have e: "snd (net env (netCalls s)) = Inl e" and a: "a = retryAttempts (config s)"
    by simp_all
  let ?s1 = "snd (axiosRequest env cfg (bumpTotal s))"
  note f = axiosRequest_fail [OF e, of cfg]
  have step: "retryLoop env cfg a le s = retryLoop env cfg (Suc a) (Some e) ?s1"
    using a f by (subst retryLoop.simps) (auto split: prod.splits)
  have stop: "retryLoop env cfg (Suc a) (Some e) ?s1 = (Inl (Some e), ?s1)"
    using a f by (subst retryLoop.simps) simp
  show ?case
    by (simp add: step stop f schedule_0)
next
  case (Suc n)
  from Suc.prems(1) obtain e0 where e0: "snd (net env (netCalls s)) = Inl e0"
    by (metis add.right_neutral isl_def zero_less_Suc)
  let ?s1 = "snd (axiosRequest env cfg (bumpTotal s))"
  let ?s2 = "delay (retryDelay (config s) * 2 ^ a) ?s1"
  note f = axiosRequest_fail [OF e0, of cfg]
  have lt: "a < retryAttempts (config s)" using Suc.prems(3) by simp
  have unfold: "retryLoop env cfg a le s = retryLoop env cfg (Suc a) (Some e0) ?s2"
    using lt f by (subst retryLoop.simps) (auto split: prod.splits)
  have IH: "fst (retryLoop env cfg (Suc a) (Some e0) ?s2) = Inl (Some e)
         \<and> attemptsOf (trace (snd (retryLoop env cfg (Suc a) (Some e0) ?s2)))
             = attemptsOf (trace ?s2) @ schedule (retryDelay (config ?s2)) (Suc a) (netCalls ?s2) n
         \<and> netCalls (snd (retryLoop env cfg (Suc a) (Some e0) ?s2)) = netCalls ?s2 + n + 1"
    using Suc.prems by (intro Suc.IH) (auto simp: delay_facts f)
  show ?case
    using IH by (simp add: unfold delay_facts f schedule_Suc)
qed




section \<open>The running average\<close>






section \<open>The request boundary\<close>

text \<open>\<open>makeRequestWithRetry\<close> makes at least one attempt, so what it throws is an error.\<close>

lemma retryLoop_throws_error:
  "fst (retryLoop env cfg a le s) = Inl None \<Longrightarrow> le = None \<and> retryAttempts (config s) < a"
proof (induction env cfg a le s rule: retryLoop.induct)
  case (1 env cfg attempt lastErr s)
  show ?case
  proof (cases "attempt \<le> retryAttempts (config s)")
    case False
    then show ?thesis using "1.prems" by (subst (asm) retryLoop.simps) simp
  next
    case True
    obtain x s' where ax: "axiosRequest env cfg (bumpTotal s) = (x, s')"
      by (cases "axiosRequest env cfg (bumpTotal s)")
    show ?thesis
    proof (cases x)
      case (Inr r)
      then show ?thesis using True ax "1.prems" by (subst (asm) retryLoop.simps) simp
    next
      case (Inl e)
      let ?s2 = "if attempt < retryAttempts (config s') then delay (retryDelay (config s') * 2 ^ attempt) s' else s'"
      have "fst (retryLoop env cfg (Suc attempt) (Some e) ?s2) = Inl None"
        using True ax Inl "1.prems" by (subst (asm) retryLoop.simps) simp
      then have "Some e = None \<and> retryAttempts (config ?s2) < Suc attempt"
        by (rule "1.IH" [OF True ax [symmetric] Inl])
      then show ?thesis by simp
    qed
  qed
qed

lemma makeRequestWithRetry_throws_error: "fst (makeRequestWithRetry env cfg s) \<noteq> Inl None"
  using retryLoop_throws_error [of env cfg 0 None s] by (auto simp: makeRequestWithRetry_def)

lemma respond_cases:
  "fst (respond cfg key t0 p) = Inl thrown \<Longrightarrow> fst p = Inl thrown"
  "fst (respond cfg key t0 p) = Inr res \<Longrightarrow> success res"
proof -
  obtain x s where p: "p = (x, s)" by (cases p)
  show "fst (respond cfg key t0 p) = Inl thrown \<Longrightarrow> fst p = Inl thrown"
    unfolding p by (cases x) (simp_all add: Let_def)
  show "fst (respond cfg key t0 p) = Inr res \<Longrightarrow> success res"
    unfolding p by (cases x) (auto simp: Let_def)
qed

lemma fetch_cases:
  "fst (fetch env cfg key t0 s) \<noteq> Inl None"
  "fst (fetch env cfg key t0 s) = Inr res \<Longrightarrow> success res"
  using makeRequestWithRetry_throws_error respond_cases unfolding fetch_def by blast+

lemma lookedUp_cases:
  "fst (lookedUp env cfg key t0 p) \<noteq> Inl None"
  "fst (lookedUp env cfg key t0 p) = Inr res \<Longrightarrow> success res"
proof -
  obtain v s where p: "p = (v, s)" by (cases p)
  show "fst (lookedUp env cfg key t0 p) \<noteq> Inl None"
    unfolding p using fetch_cases(1) by (cases "truthy v") simp_all
  show "fst (lookedUp env cfg key t0 p) = Inr res \<Longrightarrow> success res"
    unfolding p using fetch_cases(2) by (cases "truthy v") auto
qed

lemma requestBody_cases:
  "fst (requestBody env cfg key t0 s) \<noteq> Inl None"
  "fst (requestBody env cfg key t0 s) = Inr res \<Longrightarrow> success res"
  using fetch_cases lookedUp_cases by (auto simp: requestBody_def split: if_splits)

text \<open>
  Once the cache key has been computed, \<open>request\<close> returns a result: a success, or a
  failure that carries the error message.
\<close>

lemma request_returns:
  assumes "generateCacheKey cfg = Inr key"
  shows "\<exists>res. fst (request env cfg s) = Inr res \<and> (success res \<or> error res \<noteq> None)"
proof -
  obtain x s' where rb: "requestBody env cfg key (clock s) s = (x, s')"
    by (cases "requestBody env cfg key (clock s) s")
  have x: "x \<noteq> Inl None" and ok: "\<And>res. x = Inr res \<Longrightarrow> success res"
    using rb requestBody_cases [of env cfg key "clock s" s] by simp_all
  show ?thesis
  proof (cases x)
    case (Inr res)
    then show ?thesis using assms rb ok by (simp add: request_def)
  next
    case (Inl thrown)
    with x obtain e where "thrown = Some e" by (cases thrown) auto
    with Inl show ?thesis using assms rb by (simp add: request_def Let_def)
  qed
qed

text \<open>
  Claim C1: \<open>request\<close> returns a result for every call and never raises. It fails
  on a POST whose body holds a BigInt: \<open>JSON.stringify\<close> throws while the cache key
  is computed, before the \<open>try\<close> block is entered, and the TypeError leaves
  \<open>request\<close>. No result is returned; nothing is counted, emitted or delivered.
\<close>

theorem request_raises_on_bigint:
  "post env ''/pay'' (JObj [(''amount'', JBigInt 10)]) noConfig s
     = (Inl (TypeError ''Do not know how to serialize a BigInt''), s)"
  by (simp add: post_def request_def generateCacheKey_def noConfig_def opt_str_def stringify_object_def)

lemma checkRateLimit_keeps:
  "config (checkRateLimit s) = config s" "netCalls (checkRateLimit s) = netCalls s"
  by (simp_all add: checkRateLimit_def Let_def delay_def delayInfinity_def)

text \<open>
  When every attempt of a call that is not a GET fails, the result is a failure that
  carries the message and the status of the last attempt's error.
\<close>

lemma request_surfaces_last_error:
  assumes "generateCacheKey cfg = Inr key" and "\<not> isGet cfg"
    and "\<forall>i<retryAttempts (config s). isl (snd (net env (netCalls s + i)))"
    and "snd (net env (netCalls s + retryAttempts (config s))) = Inl e"
  shows "\<exists>rt. fst (request env cfg s)
           = Inr \<lparr>success = False, data = None, error = Some (err_message e), statusCode = err_status e,
                  responseTime = Some rt, cached = None\<rparr>"
proof -
  let ?s1 = "checkRateLimit s"
  obtain x s' where mr: "makeRequestWithRetry env cfg ?s1 = (x, s')"
    by (cases "makeRequestWithRetry env cfg ?s1")
  have "fst (retryLoop env cfg 0 None ?s1) = Inl (Some e)"
    using retryLoop_exhausted [of "retryAttempts (config s)" env ?s1 e 0 cfg None] assms(3,4)
    by (simp add: checkRateLimit_keeps)
  then have x: "x = Inl (Some e)"
    using mr by (simp add: makeRequestWithRetry_def)
  show ?thesis
    using assms(1,2) by (simp add: request_def requestBody_def fetch_def mr x Let_def)
qed

section \<open>The keyed cache\<close>

text \<open>
  A cacheable GET whose entry is present, not expired and truthy is answered from the
  cache: the result carries the stored value, \<open>cached = true\<close> and no status code;
  only the hit counter of the metrics and the access count of the entry change.
\<close>

lemma request_cache_hit:
  assumes "enabled (cacheConfig s)" and "isGet cfg" and "generateCacheKey cfg = Inr key"
    and "map_of (cache s) key = Some item"
    and "clock s - item_timestamp item \<le> ttl (cacheConfig s)"
    and "truthy (item_data item)"
  shows "request env cfg s =
           (Inr \<lparr>success = True, data = Some (item_data item), error = None, statusCode = None,
                 responseTime = Some 0, cached = Some True\<rparr>,
            s\<lparr>cache := AList.update key (item\<lparr>hits := hits item + 1\<rparr>) (cache s),
              metrics := (metrics s)\<lparr>cacheHits := cacheHits (metrics s) + 1\<rparr>\<rparr>)"
  using assms by (simp add: request_def requestBody_def getFromCache_def Let_def)

text \<open>An expired entry reads as absent and is removed by the read.\<close>

lemma getFromCache_expired:
  assumes "map_of (cache s) key = Some item" and "clock s - item_timestamp item > ttl (cacheConfig s)"
  shows "fst (getFromCache key s) = JNull"
    and "cache (snd (getFromCache key s)) = AList.delete key (cache s)"
    and "map_of (cache (snd (getFromCache key s))) key = None"
  using assms by (simp_all add: getFromCache_def AList.delete_conv')

text \<open>
  Claim C4: a stored response that is read again before the ttl has elapsed comes back
  with \<open>cached = true\<close> and the stored value, for every value. It fails for a
  response whose body is \<open>null\<close> (status 200, as in the test of malformed
  responses). The first GET stores the value; the entry is in the cache under the
  key of the request and has not expired. The same GET issued again at once is not
  answered from the cache: \<open>if (cached)\<close> tests the stored value itself, \<open>null\<close> is
  falsy, a miss is counted and the request goes to the network a second time.
\<close>

theorem cached_null_not_served:
  "generateCacheKey (noConfig\<lparr>req_method := Some ''GET'', req_url := Some ''/test-malformed''\<rparr>)
     = Inr ''eyJ1cmwiOiIvdGVzdC1tYWxmb3JtZWQiLCJtZXRob2QiOiJHRVQifQ==''
   \<and> cacheEntries afterNullGet = [(''eyJ1cmwiOiIvdGVzdC1tYWxmb3JtZWQiLCJtZXRob2QiOiJHRVQifQ=='', JNull, False)]
   \<and> observed (get (failsThenOk 0 JNull) ''/test-malformed'' noConfig afterNullGet)
       = (Inr \<lparr>success = True, data = Some JNull, error = None, statusCode = Some 200,
                responseTime = Some 0, cached = None\<rparr>,
          \<lparr>totalRequests = 2, successfulRequests = 2, failedRequests = 0, averageResponseTime = 200,
             rateLimitHits = 0, cacheHits = 0, cacheMisses = 2, lastError = None, lastErrorTime = None\<rparr>,
          [Http 0, Emit_api_success 200 (Some ''/test-malformed'') (Some ''GET''),
           Http 1, Emit_api_success 200 (Some ''/test-malformed'') (Some ''GET'')])"
  by code_simp

text \<open>
  Claim C10: a GET whose entry is present and not expired returns \<open>cached = true\<close>
  with no status code and changes only the hit counter. It fails on a cached empty
  body (status 200 with no content). The entry of the request is present and not
  expired, so the lookup finds it; the empty string is
  falsy, and the call is treated as a miss: the result carries a status code and no
  \<open>cached\<close> flag, \<open>totalRequests\<close> and \<open>successfulRequests\<close> go from 1 to 2,
  \<open>cacheHits\<close> stays 0, a second HTTP attempt is made and a second admission is
  recorded by the rate limiter. This is the defect of claim C4.
\<close>

theorem cache_hit_empty_body_counted_as_miss:
  "generateCacheKey (noConfig\<lparr>req_method := Some ''GET'', req_url := Some ''/empty''\<rparr>)
     = Inr ''eyJ1cmwiOiIvZW1wdHkiLCJtZXRob2QiOiJHRVQifQ==''
   \<and> cacheEntries afterEmptyGet = [(''eyJ1cmwiOiIvZW1wdHkiLCJtZXRob2QiOiJHRVQifQ=='', JStr '''', False)]
   \<and> metrics afterEmptyGet
       = \<lparr>totalRequests = 1, successfulRequests = 1, failedRequests = 0, averageResponseTime = 200,
          rateLimitHits = 0, cacheHits = 0, cacheMisses = 1, lastError = None, lastErrorTime = None\<rparr>
   \<and> observed (get (failsThenOk 0 (JStr '''')) ''/empty'' noConfig afterEmptyGet)
       = (Inr \<lparr>success = True, data = Some (JStr ''''), error = None, statusCode = Some 200,
                responseTime = Some 0, cached = None\<rparr>,
          \<lparr>totalRequests = 2, successfulRequests = 2, failedRequests = 0, averageResponseTime = 200,
             rateLimitHits = 0, cacheHits = 0, cacheMisses = 2, lastError = None, lastErrorTime = None\<rparr>,
          [Http 0, Emit_api_success 200 (Some ''/empty'') (Some ''GET''),
           Http 1, Emit_api_success 200 (Some ''/empty'') (Some ''GET'')])
   \<and> rateLimitTracker (snd (get (failsThenOk 0 (JStr '''')) ''/empty'' noConfig afterEmptyGet))
         (baseURL testAPIConfig) = Some [0, 0]"
  by code_simp

section \<open>Eviction\<close>

text \<open>
  The keys of the cache are never the empty string, which the eviction routines take
  for no key.
\<close>

lemma base64_nonempty: "xs \<noteq> [] \<Longrightarrow> base64 xs \<noteq> []"
  by (cases xs rule: base64.cases) simp_all

lemma stringify_object_nonempty: "stringify_object rs = Inr (Some s) \<Longrightarrow> s \<noteq> []"
  by (auto simp: stringify_object_def split: sum.splits)

lemma generateCacheKey_nonempty: "generateCacheKey cfg = Inr key \<Longrightarrow> key \<noteq> ''''"
proof -
  assume k: "generateCacheKey cfg = Inr key"
  then obtain s where s: "stringify (JObj [(''url'', opt_str (req_url cfg)), (''method'', opt_str (req_method cfg)),
                            (''params'', req_params cfg), (''data'', req_data cfg)]) = Inr (Some s)"
    and key: "key = toBase64 s"
    by (auto simp: generateCacheKey_def split: sum.splits option.splits)
  from s have "s \<noteq> []"
    using stringify_object_nonempty by (simp del: stringify.simps(1-6) add: stringify.simps(8))
  then show ?thesis
    by (simp add: key toBase64_def base64_nonempty)
qed


lemma update_absent: "key \<notin> fst ` set al \<Longrightarrow> AList.update key v al = al @ [(key, v)]"
  by (induction al) auto

lemma length_delete_present:
  "distinct (map fst al) \<Longrightarrow> k \<in> fst ` set al \<Longrightarrow> Suc (length (AList.delete k al)) = length al"
  by (induction al) (auto simp: AList.delete_id image_iff)

lemma keys_delete: "fst ` set (AList.delete k al) \<subseteq> fst ` set al"
  by (rule AList.dom_delete_subset)

text \<open>What an insertion does once the eviction has removed the entry of key \<open>k\<close>.\<close>

lemma insert_after_eviction:
  assumes "distinct (map fst al)" and "k \<in> fst ` set al" and "key \<notin> fst ` set al"
  shows "AList.update key v (AList.delete k al) = AList.delete k al @ [(key, v)]"
    and "length (AList.update key v (AList.delete k al)) = length al"
proof -
  have "key \<notin> fst ` set (AList.delete k al)"
    using assms(3) keys_delete [of k al] by blast
  then show "AList.update key v (AList.delete k al) = AList.delete k al @ [(key, v)]"
    by (rule update_absent)
  then show "length (AList.update key v (AList.delete k al)) = length al"
    using length_delete_present [OF assms(1,2)] by simp
qed

text \<open>
  LFU: the scan ends on an entry with the lowest access count, and a full cache
  exchanges that entry for the new one.
\<close>

lemma lfuStep_simps:
  "lfuStep (k, None) (kx, ix) = (kx, Some (hits ix))"
  "lfuStep (k, Some h) (kx, ix) = (if hits ix < h then (kx, Some (hits ix)) else (k, Some h))"
  by (simp_all add: lfuStep_def)

lemma lfu_scan:
  "xs \<noteq> [] \<Longrightarrow>
     \<exists>k i. foldl lfuStep ('''', None) xs = (k, Some (hits i)) \<and> (k, i) \<in> set xs
           \<and> (\<forall>(k', i') \<in> set xs. hits i \<le> hits i')"
proof (induction xs rule: rev_induct)
  case Nil
  then show ?case by simp
next
  case (snoc x xs)
  obtain kx ix where x: "x = (kx, ix)" by (cases x)
  show ?case
  proof (cases "xs = []")
    case True
    then show ?thesis by (auto simp: x lfuStep_simps)
  next
    case False
    then obtain k i where acc: "foldl lfuStep ('''', None) xs = (k, Some (hits i))"
      and mem: "(k, i) \<in> set xs" and least: "\<forall>(k', i') \<in> set xs. hits i \<le> hits i'"
      using snoc.IH by blast
    show ?thesis
    proof (cases "hits ix < hits i")
      case True
      then have "foldl lfuStep ('''', None) (xs @ [x]) = (kx, Some (hits ix))"
        by (simp add: acc x lfuStep_simps)
      moreover have "\<forall>(k', i') \<in> set (xs @ [x]). hits ix \<le> hits i'"
        using True least by (auto simp: x)
      ultimately show ?thesis by (auto simp: x)
    next
      case False
      then have "foldl lfuStep ('''', None) (xs @ [x]) = (k, Some (hits i))"
        by (simp add: acc x lfuStep_simps)
      moreover have "\<forall>(k', i') \<in> set (xs @ [x]). hits i \<le> hits i'"
        using False least by (auto simp: x)
      ultimately show ?thesis using mem by auto
    qed
  qed
qed

lemma setCache_lfu:
  assumes "strategy (cacheConfig s) = LFU" and "maxSize (cacheConfig s) \<le> length (cache s)"
    and "cache s \<noteq> []" and "distinct (map fst (cache s))" and "'''' \<notin> fst ` set (cache s)"
    and "key \<notin> fst ` set (cache s)"
  shows "\<exists>k i. (k, i) \<in> set (cache s) \<and> (\<forall>(k', i') \<in> set (cache s). hits i \<le> hits i')
           \<and> cache (setCache key v s) = AList.delete k (cache s) @ [(key, newItem v (clock s))]
           \<and> length (cache (setCache key v s)) = length (cache s)"
proof -
  obtain k i where scan: "foldl lfuStep ('''', None) (cache s) = (k, Some (hits i))"
    and mem: "(k, i) \<in> set (cache s)" and least: "\<forall>(k', i') \<in> set (cache s). hits i \<le> hits i'"
    using lfu_scan [OF assms(3)] by blast
  have k: "k \<in> fst ` set (cache s)" "k \<noteq> ''''"
    using mem assms(5) by force+
  have ev: "evictFromCache s = s\<lparr>cache := AList.delete k (cache s)\<rparr>"
    using assms(1) scan k(2) by (simp add: evictFromCache_def evictLFU_def Let_def)
  have "cache (setCache key v s) = AList.update key (newItem v (clock s)) (AList.delete k (cache s))"
    using assms(2) by (simp add: setCache_def ev newItem_def)
  then show ?thesis
    using insert_after_eviction [OF assms(4) k(1) assms(6)] mem least by auto
qed

text \<open>FIFO: a full cache loses its first-inserted entry.\<close>

lemma setCache_fifo:
  assumes "strategy (cacheConfig s) = FIFO" and "maxSize (cacheConfig s) \<le> length (cache s)"
    and "cache s = (k0, i0) # rest" and "distinct (map fst (cache s))" and "'''' \<notin> fst ` set (cache s)"
    and "key \<notin> fst ` set (cache s)"
  shows "cache (setCache key v s) = rest @ [(key, newItem v (clock s))]"
    and "length (cache (setCache key v s)) = length (cache s)"
proof -
  have k0: "k0 \<noteq> ''''" "k0 \<notin> fst ` set rest" "key \<notin> fst ` set rest"
    using assms(3-6) by auto
  have ev: "evictFromCache s = s\<lparr>cache := rest\<rparr>"
    using assms(1,3) k0 by (simp add: evictFromCache_def evictFIFO_def AList.delete_id)
  have "cache (setCache key v s) = AList.update key (newItem v (clock s)) rest"
    using assms(2) by (simp add: setCache_def ev newItem_def)
  then show "cache (setCache key v s) = rest @ [(key, newItem v (clock s))]"
    using update_absent [OF k0(3)] by simp
  then show "length (cache (setCache key v s)) = length (cache s)"
    using assms(3) by simp
qed

text \<open>
  LRU: the scan finds nothing when no entry is older than \<open>now\<close>; otherwise it ends
  on an entry with the oldest timestamp. A full cache exchanges that entry for the
  new one in the second case and grows by one entry in the first.
\<close>

lemma lruStep_simp:
  "lruStep (k, t) (kx, ix) = (if item_timestamp ix < t then (kx, item_timestamp ix) else (k, t))"
  by (simp add: lruStep_def)

lemma lru_scan_none:
  "\<forall>(k', i') \<in> set xs. now \<le> item_timestamp i' \<Longrightarrow> foldl lruStep ('''', now) xs = ('''', now)"
  by (induction xs rule: rev_induct) (auto simp: lruStep_simp)

lemma lru_scan_some:
  "\<exists>(k', i') \<in> set xs. item_timestamp i' < now \<Longrightarrow>
     \<exists>k i. foldl lruStep ('''', now) xs = (k, item_timestamp i) \<and> (k, i) \<in> set xs
           \<and> item_timestamp i < now \<and> (\<forall>(k', i') \<in> set xs. item_timestamp i \<le> item_timestamp i')"
proof (induction xs rule: rev_induct)
  case Nil
  then show ?case by simp
next
  case (snoc x xs)
  obtain kx ix where x: "x = (kx, ix)" by (cases x)
  show ?case
  proof (cases "\<exists>(k', i') \<in> set xs. item_timestamp i' < now")
    case False
    then have none: "\<forall>(k', i') \<in> set xs. now \<le> item_timestamp i'"
      by fastforce
    with snoc.prems have older: "item_timestamp ix < now"
      by (auto simp: x)
    have "foldl lruStep ('''', now) (xs @ [x]) = (kx, item_timestamp ix)"
      using older by (simp add: lru_scan_none [OF none] x lruStep_simp)
    moreover have "\<forall>(k', i') \<in> set (xs @ [x]). item_timestamp ix \<le> item_timestamp i'"
      using none older by (auto simp: x)
    ultimately show ?thesis using older by (auto simp: x)
  next
    case True
    then obtain k i where acc: "foldl lruStep ('''', now) xs = (k, item_timestamp i)"
      and mem: "(k, i) \<in> set xs" and old: "item_timestamp i < now"
      and least: "\<forall>(k', i') \<in> set xs. item_timestamp i \<le> item_timestamp i'"
      using snoc.IH by blast
    show ?thesis
    proof (cases "item_timestamp ix < item_timestamp i")
      case True
      then have "foldl lruStep ('''', now) (xs @ [x]) = (kx, item_timestamp ix)"
        by (simp add: acc x lruStep_simp)
      moreover have "\<forall>(k', i') \<in> set (xs @ [x]). item_timestamp ix \<le> item_timestamp i'"
        using True least by (auto simp: x)
      ultimately show ?thesis using True old by (auto simp: x)
    next
      case False
      then have "foldl lruStep ('''', now) (xs @ [x]) = (k, item_timestamp i)"
        by (simp add: acc x lruStep_simp)
      moreover have "\<forall>(k', i') \<in> set (xs @ [x]). item_timestamp i \<le> item_timestamp i'"
        using False least by (auto simp: x)
      ultimately show ?thesis using mem old by auto
    qed
  qed
qed

lemma setCache_lru_evicts:
  assumes "strategy (cacheConfig s) = LRU" and "maxSize (cacheConfig s) \<le> length (cache s)"
    and "\<exists>(k', i') \<in> set (cache s). item_timestamp i' < clock s"
    and "distinct (map fst (cache s))" and "'''' \<notin> fst ` set (cache s)"
    and "key \<notin> fst ` set (cache s)"
  shows "\<exists>k i. (k, i) \<in> set (cache s)
           \<and> (\<forall>(k', i') \<in> set (cache s). item_timestamp i \<le> item_timestamp i')
           \<and> cache (setCache key v s) = AList.delete k (cache s) @ [(key, newItem v (clock s))]
           \<and> length (cache (setCache key v s)) = length (cache s)"
proof -
  obtain k i where scan: "foldl lruStep ('''', clock s) (cache s) = (k, item_timestamp i)"
    and mem: "(k, i) \<in> set (cache s)"
    and least: "\<forall>(k', i') \<in> set (cache s). item_timestamp i \<le> item_timestamp i'"
    using lru_scan_some [OF assms(3)] by blast
  have k: "k \<in> fst ` set (cache s)" "k \<noteq> ''''"
    using mem assms(5) by force+
  have ev: "evictFromCache s = s\<lparr>cache := AList.delete k (cache s)\<rparr>"
    using assms(1) scan k(2) by (simp add: evictFromCache_def evictLRU_def Let_def)
  have "cache (setCache key v s) = AList.update key (newItem v (clock s)) (AList.delete k (cache s))"
    using assms(2) by (simp add: setCache_def ev newItem_def)
  then show ?thesis
    using insert_after_eviction [OF assms(4) k(1) assms(6)] mem least by auto
qed

lemma setCache_lru_keeps:
  assumes "strategy (cacheConfig s) = LRU" and "maxSize (cacheConfig s) \<le> length (cache s)"
    and "\<forall>(k', i') \<in> set (cache s). clock s \<le> item_timestamp i'"
    and "key \<notin> fst ` set (cache s)"
  shows "cache (setCache key v s) = cache s @ [(key, newItem v (clock s))]"
    and "length (cache (setCache key v s)) = Suc (length (cache s))"
proof -
  have ev: "evictFromCache s = s"
    using assms(1) lru_scan_none [OF assms(3)]
    by (simp add: evictFromCache_def evictLRU_def Let_def)
  have "cache (setCache key v s) = AList.update key (newItem v (clock s)) (cache s)"
    using assms(2) by (simp add: setCache_def ev newItem_def)
  then show "cache (setCache key v s) = cache s @ [(key, newItem v (clock s))]"
    using update_absent [OF assms(4)] by simp
  then show "length (cache (setCache key v s)) = Suc (length (cache s))"
    by simp
qed

text \<open>
  Claim C5: inserting \<open>maxSize + 1\<close> distinct keys leaves exactly \<open>maxSize\<close> entries,
  the policy's entry being evicted. It fails for the LRU strategy, on a cache of
  capacity 2 and three distinct keys inserted within one millisecond. \<open>evictLRU\<close> looks for an entry whose timestamp is
  strictly less than \<open>Date.now()\<close>; no entry is, nothing is evicted, and the cache
  holds three entries. Three GETs of distinct paths that are answered within the same
  millisecond leave it in that state.
\<close>

theorem lru_same_millisecond_no_eviction:
  "maxSize (cacheConfig (smallCache LRU)) = 2
   \<and> map fst (cache (setCache ''k3'' (JNum 3) (setCache ''k2'' (JNum 2) (setCache ''k1'' (JNum 1) (smallCache LRU)))))
       = [''k1'', ''k2'', ''k3'']
   \<and> length (cache (snd (get (failsThenOk 0 (JNum 1)) ''/c'' noConfig
                 (snd (get (failsThenOk 0 (JNum 1)) ''/b'' noConfig
                    (snd (get (failsThenOk 0 (JNum 1)) ''/a'' noConfig (smallCache LRU)))))))) = 3"
  by code_simp

text \<open>
  The sibling strategies start from no candidate at all (\<open>Infinity\<close>, the first key)
  and evict on the same input: the first-inserted entry goes.
\<close>

lemma fifo_lfu_same_millisecond_evict:
  "map fst (cache (setCache ''k3'' (JNum 3) (setCache ''k2'' (JNum 2) (setCache ''k1'' (JNum 1) (smallCache FIFO)))))
       = [''k2'', ''k3'']"
  "map fst (cache (setCache ''k3'' (JNum 3) (setCache ''k2'' (JNum 2) (setCache ''k1'' (JNum 1) (smallCache LFU)))))
       = [''k2'', ''k3'']"
  by code_simp+

text \<open>When time has passed since the inserts, LRU evicts the oldest entry as well.\<close>

lemma lru_later_evicts:
  "map fst (cache (setCache ''k3'' (JNum 3)
             (tick 1 (setCache ''k2'' (JNum 2) (setCache ''k1'' (JNum 1) (smallCache LRU))))))
       = [''k2'', ''k3'']"
  by code_simp

end
